theory Spec2Isabelle
  imports Main "HOL-Library.AList" "HOL-Library.Multiset"
begin

section \<open>Strings\<close>

text \<open>
  A Go string is a sequence of bytes, modelled as \<open>string\<close> (a list of 8-bit characters).
  The functions of package \<open>strings\<close> that the program calls are written out below for the
  arguments the program passes: every separator it splits on is a single byte.
\<close>

text \<open>\<open>strings.HasPrefix(s, prefix)\<close>.\<close>

fun HasPrefix :: "string \<Rightarrow> string \<Rightarrow> bool" where
  "HasPrefix s [] = True"
| "HasPrefix [] (p # ps) = False"
| "HasPrefix (c # cs) (p # ps) = (c = p \<and> HasPrefix cs ps)"

text \<open>\<open>strings.Contains(s, substr)\<close>.\<close>

fun Contains :: "string \<Rightarrow> string \<Rightarrow> bool" where
  "Contains [] sub = (sub = [])"
| "Contains (c # cs) sub = (HasPrefix (c # cs) sub \<or> Contains cs sub)"

text \<open>
  \<open>strings.Split(s, sep)\<close> for a one-byte separator: the pieces between the separators,
  one more piece than there are separators, so never an empty result.
\<close>

fun Split :: "string \<Rightarrow> char \<Rightarrow> string list" where
  "Split [] sep = [[]]"
| "Split (c # cs) sep =
     (if c = sep then [] # Split cs sep
      else (case Split cs sep of [] \<Rightarrow> [[c]] | p # ps \<Rightarrow> (c # p) # ps))"

text \<open>\<open>strings.LastIndex(s, sep)\<close> for a one-byte separator; \<open>-1\<close> when it does not occur.\<close>

fun LastIndex :: "string \<Rightarrow> char \<Rightarrow> int" where
  "LastIndex [] sep = - 1"
| "LastIndex (c # cs) sep =
     (let r = LastIndex cs sep
      in if 0 \<le> r then r + 1 else if c = sep then 0 else - 1)"

text \<open>
  The slice expression \<open>s[lo:hi]\<close>. Go panics unless \<open>lo \<le> hi \<le> len(s)\<close>; where the
  program slices with computed bounds, either they are shown to stay inside (the string of
  \<open>parseAddress\<close>) or the panic is a branch of the model (the chunk of the batch loop).
\<close>

definition slice :: "'a list \<Rightarrow> nat \<Rightarrow> nat \<Rightarrow> 'a list" where
  "slice s lo hi = take (hi - lo) (drop lo s)"

text \<open>
  \<open>strings.TrimSpace\<close> removes leading and trailing white space as Unicode defines it. On the
  bytes of a string that is: the six ASCII space characters, and the UTF-8 encodings of
  U+0085, U+00A0, U+1680, U+2000 to U+200A, U+2028, U+2029, U+202F, U+205F and U+3000.
\<close>

definition spaceRunes :: "string list" where
  "spaceRunes =
     [[CHR 0x09], [CHR 0x0A], [CHR 0x0B], [CHR 0x0C], [CHR 0x0D], [CHR 0x20],
      [CHR 0xC2, CHR 0x85], [CHR 0xC2, CHR 0xA0], [CHR 0xE1, CHR 0x9A, CHR 0x80],
      [CHR 0xE2, CHR 0x80, CHR 0x80], [CHR 0xE2, CHR 0x80, CHR 0x81],
      [CHR 0xE2, CHR 0x80, CHR 0x82], [CHR 0xE2, CHR 0x80, CHR 0x83],
      [CHR 0xE2, CHR 0x80, CHR 0x84], [CHR 0xE2, CHR 0x80, CHR 0x85],
      [CHR 0xE2, CHR 0x80, CHR 0x86], [CHR 0xE2, CHR 0x80, CHR 0x87],
      [CHR 0xE2, CHR 0x80, CHR 0x88], [CHR 0xE2, CHR 0x80, CHR 0x89],
      [CHR 0xE2, CHR 0x80, CHR 0x8A], [CHR 0xE2, CHR 0x80, CHR 0xA8],
      [CHR 0xE2, CHR 0x80, CHR 0xA9], [CHR 0xE2, CHR 0x80, CHR 0xAF],
      [CHR 0xE2, CHR 0x81, CHR 0x9F], [CHR 0xE3, CHR 0x80, CHR 0x80]]"

text \<open>The rest of \<open>s\<close> after the first listed sequence that starts it, if there is one.\<close>

fun stripRune :: "string list \<Rightarrow> string \<Rightarrow> string option" where
  "stripRune [] s = None"
| "stripRune (w # ws) s =
     (if w \<noteq> [] \<and> HasPrefix s w then Some (drop (length w) s) else stripRune ws s)"

lemma stripRune_shorter: "stripRune ws s = Some t \<Longrightarrow> length t < length s"
proof (induction ws)
  case Nil
  then show ?case by simp
next
  case (Cons w ws)
  show ?case
  proof (cases "w \<noteq> [] \<and> HasPrefix s w")
    case True
    then have "s \<noteq> []" by (cases s; cases w) auto
    with True Cons.prems show ?thesis by (cases w) auto
  next
    case False
    with Cons show ?thesis by auto
  qed
qed

function trimFront :: "string list \<Rightarrow> string \<Rightarrow> string" where
  "trimFront ws s = (case stripRune ws s of None \<Rightarrow> s | Some t \<Rightarrow> trimFront ws t)"
  by pat_completeness auto
termination
  by (relation "measure (\<lambda>(ws, s). length s)") (auto dest: stripRune_shorter)

definition TrimSpace :: "string \<Rightarrow> string" where
  "TrimSpace s = rev (trimFront (map rev spaceRunes) (rev (trimFront spaceRunes s)))"

section \<open>Relays\<close>

text \<open>
  \<open>type Relay struct\<close>. \<open>Reachable\<close> carries no JSON tag of its own, so the decoder fills it
  from a key of that name when the directory has one; otherwise it starts empty.
\<close>

record Relay =
  Fingerprint :: string
  OrAddresses :: "string list"
  Country :: string
  Reachable :: "string list"

section \<open>Address parsing\<close>

text \<open>
  \<open>parseAddress\<close> (lines 116 to 130). The assignment \<open>host = host[1:]\<close> is overwritten by the
  next one and has no effect on the result. In the bracket branch \<open>addr\<close> starts with
  \<open>[\<close> and has a colon, so \<open>1 \<le> portIdx < len(addr)\<close> and neither slice can panic.
\<close>

definition parseAddress :: "string \<Rightarrow> string \<times> string" where
  "parseAddress addr =
     (let parts = Split addr (CHR '':'')
      in if length parts < 2 then ([], [])
         else
           let host = hd parts; port = last parts
           in if HasPrefix host ''['' \<and> Contains addr '']:''
              then
                let portIdx = nat (LastIndex addr (CHR '':''))
                in (slice addr 1 portIdx, drop (portIdx + 1) addr)
              else (host, port))"

section \<open>The policy filter\<close>

text \<open>
  A Go \<open>map[string]int\<close> is kept as an association list with distinct keys:
  \<open>m[k] = v\<close> is \<open>AList.update k v m\<close>, \<open>_, ok := m[k]\<close> is \<open>map_of m k\<close>, and
  \<open>len(m) > 0\<close> is \<open>m \<noteq> []\<close>. A nil map reads like an empty one.
\<close>

type_synonym gomap = "(string \<times> nat) list"

text \<open>
  The loop over the tokens of the country rule (lines 140 to 149), from token index \<open>i\<close> on.
  The three maps are \<open>onlyCountries\<close>, \<open>excludeCountries\<close> and \<open>sortedCountries\<close>.
\<close>

fun countryRules :: "nat \<Rightarrow> string list \<Rightarrow> gomap \<times> gomap \<times> gomap \<Rightarrow> gomap \<times> gomap \<times> gomap" where
  "countryRules i [] maps = maps"
| "countryRules i (tok # toks) (onlyCountries, excludeCountries, sortedCountries) =
     (let c = TrimSpace tok
      in countryRules (Suc i) toks
           (if HasPrefix c ''!'' then (AList.update (drop 1 c) i onlyCountries, excludeCountries, sortedCountries)
            else if HasPrefix c ''-'' then (onlyCountries, AList.update (drop 1 c) i excludeCountries, sortedCountries)
            else (onlyCountries, excludeCountries, AList.update c i sortedCountries)))"

definition countryMaps :: "string \<Rightarrow> gomap \<times> gomap \<times> gomap" where
  "countryMaps preferredCountry =
     (if preferredCountry \<noteq> [] then countryRules 0 (Split preferredCountry (CHR '','')) ([], [], [])
      else ([], [], []))"

text \<open>The inner loop over \<open>ports\<close> (lines 167 to 172): is \<open>portStr\<close> one of them?\<close>

fun portListed :: "string list \<Rightarrow> string \<Rightarrow> bool" where
  "portListed [] portStr = False"
| "portListed (p # ps) portStr = (if p = portStr then True else portListed ps portStr)"

text \<open>The loop over a relay's addresses (lines 165 to 173), giving \<open>newAddrs\<close>.\<close>

fun narrowAddrs :: "string list \<Rightarrow> string list \<Rightarrow> string list" where
  "narrowAddrs ports [] = []"
| "narrowAddrs ports (addr # addrs) =
     (if portListed ports (snd (parseAddress addr)) then addr # narrowAddrs ports addrs
      else narrowAddrs ports addrs)"

text \<open>
  The loop over the relays (lines 153 to 180). The loop variable \<open>r\<close> is a copy of the
  element, and it is the copy, with its narrowed addresses, that is appended to \<open>filtered\<close>.
\<close>

fun filterLoop :: "gomap \<Rightarrow> gomap \<Rightarrow> string list \<Rightarrow> Relay list \<Rightarrow> Relay list" where
  "filterLoop onlyCountries excludeCountries ports [] = []"
| "filterLoop onlyCountries excludeCountries ports (r # relays) =
     (if onlyCountries \<noteq> [] \<and> map_of onlyCountries (Country r) = None
      then filterLoop onlyCountries excludeCountries ports relays
      else if map_of excludeCountries (Country r) \<noteq> None
      then filterLoop onlyCountries excludeCountries ports relays
      else if ports \<noteq> []
      then
        (let newAddrs = narrowAddrs ports (OrAddresses r)
         in if newAddrs = [] then filterLoop onlyCountries excludeCountries ports relays
            else r\<lparr>OrAddresses := newAddrs\<rparr> # filterLoop onlyCountries excludeCountries ports relays)
      else r # filterLoop onlyCountries excludeCountries ports relays)"

text \<open>The comparison handed to \<open>sort.Slice\<close> (lines 183 to 193).\<close>

definition countryRank :: "gomap \<Rightarrow> Relay \<Rightarrow> nat" where
  "countryRank sortedCountries r =
     (case map_of sortedCountries (Country r) of None \<Rightarrow> 1000 | Some ci \<Rightarrow> ci)"

definition lessCountry :: "gomap \<Rightarrow> Relay \<Rightarrow> Relay \<Rightarrow> bool" where
  "lessCountry sortedCountries a b = (countryRank sortedCountries a < countryRank sortedCountries b)"

text \<open>
  \<open>sort.Slice\<close> belongs to the Go standard library, not to this repository, so the sorting
  routine is a parameter of the model. Its documentation promises a rearrangement of the
  slice that is ordered by the comparison, and says that the sort is not guaranteed to be stable.
\<close>

type_synonym sorter = "(Relay \<Rightarrow> Relay \<Rightarrow> bool) \<Rightarrow> Relay list \<Rightarrow> Relay list"

definition sortContract :: "sorter \<Rightarrow> (Relay \<Rightarrow> Relay \<Rightarrow> bool) \<Rightarrow> bool" where
  "sortContract sort_Slice lt =
     (\<forall>xs. mset (sort_Slice lt xs) = mset xs
         \<and> sorted_wrt (\<lambda>a b. \<not> lt b a) (sort_Slice lt xs))"

text \<open>
  What every release of the library runs on a slice of fewer than seven elements (and the
  current ones on up to twelve): \<open>insertionSort\<close>, which walks each element towards the
  front while the comparison says it is smaller than its left neighbour. \<open>sinkLeft\<close> takes the
  part already sorted in reverse order.
\<close>

fun sinkLeft :: "('a \<Rightarrow> 'a \<Rightarrow> bool) \<Rightarrow> 'a \<Rightarrow> 'a list \<Rightarrow> 'a list" where
  "sinkLeft lt x [] = [x]"
| "sinkLeft lt x (y # ys) = (if lt x y then y # sinkLeft lt x ys else x # y # ys)"

definition insertionSort :: "('a \<Rightarrow> 'a \<Rightarrow> bool) \<Rightarrow> 'a list \<Rightarrow> 'a list" where
  "insertionSort lt xs = rev (foldl (\<lambda>front x. sinkLeft lt x front) [] xs)"

text \<open>
  Releases of the library before Go 1.19 (the repository's guide asks for Go 1.18 or later)
  first make one pass over a slice of two to twelve elements that compares the elements six
  places apart and swaps them when the later one is smaller, and then run \<open>insertionSort\<close>.
  \<open>gapPass\<close> is that pass over the listed positions.
\<close>

fun gapPass :: "('a \<Rightarrow> 'a \<Rightarrow> bool) \<Rightarrow> nat list \<Rightarrow> 'a list \<Rightarrow> 'a list" where
  "gapPass lt [] xs = xs"
| "gapPass lt (i # is) xs =
     gapPass lt is
       (if lt (xs ! i) (xs ! (i - 6)) then xs[i := xs ! (i - 6), i - 6 := xs ! i] else xs)"

definition shellInsertionSort :: "('a \<Rightarrow> 'a \<Rightarrow> bool) \<Rightarrow> 'a list \<Rightarrow> 'a list" where
  "shellInsertionSort lt xs = insertionSort lt (gapPass lt [6 ..< length xs] xs)"

text \<open>\<open>filterAndSortRelays\<close> (lines 133 to 197).\<close>

definition filterAndSortRelays :: "sorter \<Rightarrow> Relay list \<Rightarrow> string \<Rightarrow> string list \<Rightarrow> Relay list" where
  "filterAndSortRelays sort_Slice relays preferredCountry ports =
     (case countryMaps preferredCountry of
        (onlyCountries, excludeCountries, sortedCountries) \<Rightarrow>
          let filtered = filterLoop onlyCountries excludeCountries ports relays
          in if sortedCountries \<noteq> [] then sort_Slice (lessCountry sortedCountries) filtered
             else filtered)"

section \<open>The output formatter\<close>

text \<open>\<open>%d\<close> of a non-negative \<open>int\<close>.\<close>

function itoa :: "nat \<Rightarrow> string" where
  "itoa n =
     (if n < 10 then [''0123456789'' ! n] else itoa (n div 10) @ [''0123456789'' ! (n mod 10)])"
  by pat_completeness auto
termination
  by (relation "measure id") auto

text \<open>\<open>strings.Join(elems, sep)\<close>.\<close>

fun Join :: "string list \<Rightarrow> string \<Rightarrow> string" where
  "Join [] sep = []"
| "Join [x] sep = x"
| "Join (x # y # ys) sep = x @ sep @ Join (y # ys) sep"

text \<open>The lines written to \<open>outfile\<close> by the nested loops of lines 208 to 214.\<close>

fun relayLines :: "string \<Rightarrow> string \<Rightarrow> string list \<Rightarrow> string list" where
  "relayLines prefix fp [] = []"
| "relayLines prefix fp (addr # addrs) =
     (prefix @ addr @ '' '' @ fp @ [CHR 0x0A]) # relayLines prefix fp addrs"

fun outputLines :: "string \<Rightarrow> Relay list \<Rightarrow> string list" where
  "outputLines prefix [] = []"
| "outputLines prefix (r # rs) =
     relayLines prefix (Fingerprint r) (Reachable r) @ outputLines prefix rs"

text \<open>
  The lines added to the preferences file by the nested loops of lines 235 to 239; \<open>i\<close> is
  the index of the outer loop, over the relays.
\<close>

definition prefLine :: "nat \<Rightarrow> string \<Rightarrow> string \<Rightarrow> string" where
  "prefLine i addr fp =
     ''user_pref('' @ [CHR 0x22] @ ''torbrowser.settings.bridges.bridge_strings.'' @ itoa i
       @ [CHR 0x22] @ '', '' @ [CHR 0x22] @ addr @ '' '' @ fp @ [CHR 0x22] @ '');''"

fun relayPrefLines :: "nat \<Rightarrow> string \<Rightarrow> string list \<Rightarrow> string list" where
  "relayPrefLines i fp [] = []"
| "relayPrefLines i fp (addr # addrs) = prefLine i addr fp # relayPrefLines i fp addrs"

fun prefLines :: "nat \<Rightarrow> Relay list \<Rightarrow> string list" where
  "prefLines i [] = []"
| "prefLines i (r # rs) =
     relayPrefLines i (Fingerprint r) (Reachable r) @ prefLines (Suc i) rs"

text \<open>
  The preferences file as the program finds it: absent, present but unreadable, or present
  with its content and whether it can be written.
\<close>

datatype prefsFile = Missing | Unreadable | Present string bool

datatype outputError = PrefsMissing string | PrefsUnreadable | PrefsWriteFailed

text \<open>
  \<open>generateOutput\<close> (lines 200 to 245): the text written to \<open>outfile\<close>, the preferences file
  afterwards, and the error returned, if any. The text is flushed before the preferences
  file is looked at.
\<close>

definition generateOutput ::
  "Relay list \<Rightarrow> bool \<Rightarrow> string \<Rightarrow> prefsFile \<Rightarrow> string \<times> prefsFile \<times> outputError option" where
  "generateOutput workingRelays torrcFmt prefsjs pf =
     (let prefix = (if torrcFmt then ''Bridge '' else []);
          written = concat (outputLines prefix workingRelays)
                    @ (if torrcFmt then ''UseBridges 1'' @ [CHR 0x0A] else [])
      in if prefsjs \<noteq> []
         then
           (case pf of
              Missing \<Rightarrow> (written, pf, Some (PrefsMissing prefsjs))
            | Unreadable \<Rightarrow> (written, pf, Some PrefsUnreadable)
            | Present content writable \<Rightarrow>
                let newLines =
                      filter (\<lambda>line. \<not> Contains line ''torbrowser.settings.bridges.'')
                        (Split content (CHR 0x0A))
                      @ prefLines 0 workingRelays
                      @ [''user_pref('' @ [CHR 0x22] @ ''torbrowser.settings.bridges.enabled''
                           @ [CHR 0x22] @ '', true);'',
                         ''user_pref('' @ [CHR 0x22] @ ''torbrowser.settings.bridges.source''
                           @ [CHR 0x22] @ '', 2);'']
                in if writable then (written, Present (Join newLines [CHR 0x0A]) writable, None)
                   else (written, pf, Some PrefsWriteFailed))
         else (written, pf, None))"

section \<open>The prober\<close>

text \<open>
  Whether a TCP connection to an address succeeds within the timeout is decided by the
  network; the model takes it as a function \<open>dial\<close> of the address (an address dialed twice
  gets the same answer; no result below depends on that).

  Lines 356 to 361 start one \<open>checkRelay\<close> per address of every relay of the chunk. The
  relay it is given is \<open>&relay\<close>, the address of the loop variable, which holds a copy of the
  chunk's element; \<open>k\<close> names the loop variable of the \<open>k\<close>-th iteration (from Go 1.22 on
  every iteration has its own; before, all share one; in neither case is it the element of
  the chunk). A successful \<open>checkRelay\<close> sends the pair of the address and that pointer on
  the channel (lines 106 to 109). The pairs are listed in the order the checks were started;
  they may arrive in any other order, which changes only the order of the addresses inside
  the loop variables.
\<close>

fun launch :: "(string \<Rightarrow> bool) \<Rightarrow> nat \<Rightarrow> Relay list \<Rightarrow> (string \<times> nat) list" where
  "launch dial k [] = []"
| "launch dial k (relay # chunk) =
     map (\<lambda>addr. (addr, k)) (filter dial (OrAddresses relay)) @ launch dial (Suc k) chunk"

text \<open>
  Lines 365 to 367 read the channel and append each address to \<open>res.Relay.Reachable\<close>, that
  is, to the loop variable the pointer names. \<open>vars\<close> are the loop variables.
\<close>

fun drain :: "(string \<times> nat) list \<Rightarrow> Relay list \<Rightarrow> Relay list" where
  "drain [] vars = vars"
| "drain ((addr, k) # results) vars =
     drain results (vars[k := (vars ! k)\<lparr>Reachable := Reachable (vars ! k) @ [addr]\<rparr>])"

datatype failure =
    SliceBounds     \<comment> \<open>panic: slice bounds out of range\<close>
  | DivideByZero    \<comment> \<open>panic: integer divide by zero\<close>
  | Deadlock        \<comment> \<open>a sender blocks for ever on the full channel and \<open>wg.Wait\<close> never returns\<close>

text \<open>
  One pass of the loop body from line 351 to line 373. The channel holds \<open>len(chunk)*10\<close>
  results and nothing reads it before \<open>wg.Wait()\<close> returns, so one success more than that
  blocks its sender and the barrier with it. Otherwise the result is the loop variables after
  the channel is drained, and what lines 369 to 373 append to \<open>workingRelays\<close>: the elements
  of \<open>chunk\<close> itself whose \<open>Reachable\<close> is not empty.
\<close>

definition probeChunk :: "(string \<Rightarrow> bool) \<Rightarrow> Relay list \<Rightarrow> failure + Relay list \<times> Relay list" where
  "probeChunk dial chunk =
     (let results = launch dial 0 chunk
      in if length chunk * 10 < length results then Inl Deadlock
         else
           let vars = drain results chunk
           in Inr (vars, filter (\<lambda>r. Reachable r \<noteq> []) chunk))"

section \<open>The batch scheduler\<close>

text \<open>
  The loop of lines 339 to 383, from the state \<open>i\<close>, \<open>workingRelays\<close>; \<open>dialed\<close> records the
  addresses handed to \<open>checkRelay\<close> so far. \<open>numRelays\<close> and \<open>goal\<close> are the \<open>int\<close> flags
  \<open>-n\<close> and \<open>-g\<close>. With a negative \<open>numRelays\<close>, \<open>end\<close> is below \<open>i\<close> and \<open>relays[i:end]\<close>
  panics; with \<open>numRelays = 0\<close> the division in the arguments of the log call of line 346
  panics, before anything is dialed. Otherwise \<open>i\<close> grows and the loop ends. The flags
  are read as mathematical integers: \<open>i + numRelays\<close> is only computed for \<open>i\<close> below the
  length of the list, so it stays in the range of \<open>int\<close> for any list that fits in memory.
\<close>

function batchLoop ::
  "(string \<Rightarrow> bool) \<Rightarrow> Relay list \<Rightarrow> int \<Rightarrow> int \<Rightarrow> nat \<Rightarrow> Relay list \<Rightarrow> string list
     \<Rightarrow> failure option \<times> Relay list \<times> string list" where
  "batchLoop dial relays numRelays goal i workingRelays dialed =
     (if i < length relays \<and> int (length workingRelays) < goal
      then
        if numRelays < 0 then (Some SliceBounds, workingRelays, dialed)
        else if numRelays = 0 then (Some DivideByZero, workingRelays, dialed)
        else
          let chunk = slice relays i (min (i + nat numRelays) (length relays));
              dialed' = dialed @ concat (map OrAddresses chunk)
          in (case probeChunk dial chunk of
                Inl f \<Rightarrow> (Some f, workingRelays, dialed')
              | Inr (vars, reachable) \<Rightarrow>
                  batchLoop dial relays numRelays goal (i + nat numRelays)
                    (workingRelays @ reachable) dialed')
      else (None, workingRelays, dialed))"
  by pat_completeness auto
termination
  by (relation "measure (\<lambda>(dial, relays, numRelays, goal, i, workingRelays, dialed). length relays - i)")
     auto

section \<open>The run\<close>

text \<open>
  \<open>main\<close> from line 296 on, given the flags, the relays as \<open>loadRelays\<close> returned them and
  the shuffle left them, and what the file system answers: whether \<open>_bridges.txt\<close> can be
  opened, and the state of the preferences file. The second component of the result is the
  list of addresses dialed. Starting the browser (lines 394 to 398) only logs and is left out.
\<close>

record flags =
  flag_n :: int          \<comment> \<open>\<open>-n\<close>, \<open>numRelays\<close>\<close>
  flag_g :: int          \<comment> \<open>\<open>-g\<close>, \<open>goal\<close>\<close>
  flag_c :: string       \<comment> \<open>\<open>-c\<close>, \<open>preferredCountry\<close>\<close>
  flag_p :: string       \<comment> \<open>\<open>-p\<close>, \<open>ports\<close>\<close>
  flag_torrc :: bool     \<comment> \<open>\<open>-torrc\<close>, \<open>torrcFmt\<close>\<close>
  flag_browser :: string \<comment> \<open>\<open>-browser\<close>, \<open>prefsjs\<close>\<close>

datatype outcome =
    NoRelaysMatch                 \<comment> \<open>\<open>log.Fatal("No relays match the specified criteria")\<close>\<close>
  | SinkOpenFailed                \<comment> \<open>\<open>log.Fatal\<close> on the error of opening \<open>_bridges.txt\<close>\<close>
  | Crashed failure               \<comment> \<open>the run-time system stops the program\<close>
  | OutputFailed string prefsFile outputError
                                  \<comment> \<open>\<open>log.Fatal\<close> on the error of \<open>generateOutput\<close>\<close>
  | Returned string prefsFile "string option"
                                  \<comment> \<open>\<open>main\<close> returns: text written, preferences file, final log line\<close>

definition run ::
  "sorter \<Rightarrow> (string \<Rightarrow> bool) \<Rightarrow> flags \<Rightarrow> Relay list \<Rightarrow> bool \<Rightarrow> prefsFile
     \<Rightarrow> outcome \<times> string list" where
  "run sort_Slice dial fl loaded sinkOpens pf =
     (let portList = (if flag_p fl \<noteq> [] then Split (flag_p fl) (CHR '','') else []);
          relays = filterAndSortRelays sort_Slice loaded (flag_c fl) portList
      in if length relays = 0 then (NoRelaysMatch, [])
         else if \<not> sinkOpens then (SinkOpenFailed, [])
         else
           (case batchLoop dial relays (flag_n fl) (flag_g fl) 0 [] [] of
              (Some f, workingRelays, dialed) \<Rightarrow> (Crashed f, dialed)
            | (None, workingRelays, dialed) \<Rightarrow>
                if length workingRelays > 0
                then
                  (case generateOutput workingRelays (flag_torrc fl) (flag_browser fl) pf of
                     (written, pf', Some err) \<Rightarrow> (OutputFailed written pf' err, dialed)
                   | (written, pf', None) \<Rightarrow> (Returned written pf' None, dialed))
                else (Returned [] pf (Some ''No reachable relays found.''), dialed)))"

section \<open>What the specification names\<close>

text \<open>
  The (candidate, address) pairs of an accepted set in input order, each as the address and
  the candidate's fingerprint.
\<close>

definition acceptedPairs :: "Relay list \<Rightarrow> (string \<times> string) list" where
  "acceptedPairs rs = concat (map (\<lambda>r. map (\<lambda>addr. (addr, Fingerprint r)) (Reachable r)) rs)"

text \<open>
  The candidates of a batch that count as accepted: those with a non-empty
  \<open>reachableAddresses\<close>.
\<close>

definition accepted :: "Relay list \<Rightarrow> Relay list" where
  "accepted batch = filter (\<lambda>r. Reachable r \<noteq> []) batch"

text \<open>
  The partition of the ordered candidates into consecutive batches of size \<open>n\<close>, the last
  one possibly smaller.
\<close>

function batches :: "nat \<Rightarrow> 'a list \<Rightarrow> 'a list list" where
  "batches n xs = (if n = 0 \<or> xs = [] then [] else take n xs # batches n (drop n xs))"
  by pat_completeness auto
termination
  by (relation "measure (\<lambda>(n, xs). length xs)") auto

text \<open>
  The scheduler in the specification's words: batches are taken strictly in sequence, each
  one's accepted candidates are folded into the accepted set, and the run stops at the first
  batch boundary where the accepted set has reached the target count or no batch remains.
  The result is the accepted set and the batches that were processed.
\<close>

fun schedule :: "int \<Rightarrow> Relay list list \<Rightarrow> Relay list \<Rightarrow> Relay list \<times> Relay list list" where
  "schedule targetCount [] acceptedSet = (acceptedSet, [])"
| "schedule targetCount (b # bs) acceptedSet =
     (if targetCount \<le> int (length acceptedSet) then (acceptedSet, [])
      else
        (case schedule targetCount bs (acceptedSet @ accepted b) of
           (final, processed) \<Rightarrow> (final, b # processed)))"

section \<open>Example inputs\<close>

text \<open>
  \<open>exRelay\<close> is a relay with one address. \<open>exDirectory\<close> is a directory of eight of them:
  the first two come with nothing recorded as reachable, the other six with their address
  recorded. \<open>exDial\<close> is a network in which the addresses of the first two do not answer.
\<close>

definition exRelay :: "string \<Rightarrow> string \<Rightarrow> string \<Rightarrow> string list \<Rightarrow> Relay" where
  "exRelay fp country addr reach =
     \<lparr>Fingerprint = fp, OrAddresses = [addr], Country = country, Reachable = reach\<rparr>"

definition exDirectory :: "Relay list" where
  "exDirectory =
     [exRelay ''A'' ''US'' ''10.0.0.1:443'' [], exRelay ''B'' ''US'' ''10.0.0.2:443'' [],
      exRelay ''C'' ''US'' ''10.0.0.3:443'' [''10.0.0.3:443''],
      exRelay ''D'' ''US'' ''10.0.0.4:443'' [''10.0.0.4:443''],
      exRelay ''E'' ''US'' ''10.0.0.5:443'' [''10.0.0.5:443''],
      exRelay ''F'' ''US'' ''10.0.0.6:443'' [''10.0.0.6:443''],
      exRelay ''G'' ''US'' ''10.0.0.7:443'' [''10.0.0.7:443''],
      exRelay ''H'' ''US'' ''10.0.0.8:443'' [''10.0.0.8:443'']]"

text \<open>
  \<open>liveDirectory\<close> is the same directory as the fetcher delivers it from the relay
  directory service: no relay has anything recorded as reachable.
\<close>

definition liveDirectory :: "Relay list" where
  "liveDirectory =
     [exRelay ''A'' ''US'' ''10.0.0.1:443'' [], exRelay ''B'' ''US'' ''10.0.0.2:443'' [],
      exRelay ''C'' ''US'' ''10.0.0.3:443'' [], exRelay ''D'' ''US'' ''10.0.0.4:443'' [],
      exRelay ''E'' ''US'' ''10.0.0.5:443'' [], exRelay ''F'' ''US'' ''10.0.0.6:443'' [],
      exRelay ''G'' ''US'' ''10.0.0.7:443'' [], exRelay ''H'' ''US'' ''10.0.0.8:443'' []]"

definition exDial :: "string \<Rightarrow> bool" where
  "exDial addr = (addr \<noteq> ''10.0.0.1:443'' \<and> addr \<noteq> ''10.0.0.2:443'')"

declare batchLoop.simps [simp del]
declare batches.simps [simp del]
declare trimFront.simps [simp del]
declare itoa.simps [simp del]

section \<open>Strings: results\<close>

lemma TrimSpace_Nil [simp]: "TrimSpace [] = []"
  by (simp add: TrimSpace_def spaceRunes_def trimFront.simps)

lemma Split_no_sep: "sep \<notin> set s \<Longrightarrow> Split s sep = [s]"
  by (induction s) auto

lemma Split_at_sep: "sep \<notin> set a \<Longrightarrow> Split (a @ sep # b) sep = a # Split b sep"
  by (induction a) auto

lemma Split_leading_seps:
  "Split (replicate n sep @ s) sep = replicate n [] @ Split s sep"
  by (induction n) simp_all

lemma Split_nonempty: "Split s sep \<noteq> []"
  by (induction s) (simp_all split: list.splits)

lemma length_Split: "length (Split s sep) = Suc (length (filter (\<lambda>c. c = sep) s))"
proof (induction s)
  case Nil
  show ?case by simp
next
  case (Cons c s)
  obtain p ps where "Split s sep = p # ps"
    using Split_nonempty [of s sep] by (cases "Split s sep") auto
  with Cons show ?case by simp
qed

lemma LastIndex_below: "LastIndex s sep < int (length s)"
  by (induction s) (simp_all add: Let_def)

lemma LastIndex_found: "sep \<in> set s \<Longrightarrow> 0 \<le> LastIndex s sep"
  by (induction s) (auto simp: Let_def)

lemma hd_Split_bracket:
  assumes "HasPrefix (hd (Split s sep)) [b]" and "b \<noteq> sep"
  shows "\<exists>rest. s = b # rest"
proof (cases s)
  case Nil
  with assms show ?thesis by simp
next
  case (Cons c cs)
  obtain p ps where "Split cs sep = p # ps"
    using Split_nonempty [of cs sep] by (cases "Split cs sep") auto
  with Cons assms show ?thesis by (cases "c = sep") simp_all
qed

lemma TrimSpace_examples:
  "TrimSpace ''US'' = ''US''" "TrimSpace '' DE'' = ''DE''" "TrimSpace ''!US'' = ''!US''"
  "TrimSpace '' -US '' = ''-US''"
  by (simp_all add: TrimSpace_def spaceRunes_def trimFront.simps)

section \<open>Address parsing: results\<close>

text \<open>
  C3. The claim is that \<open>[2001:db8::1]:443\<close> parses to the host \<open>2001:db8::1\<close> without
  brackets and the port \<open>443\<close>. The port is right, but the host is cut at the last colon,
  one byte after the closing bracket, so the bracket stays in it.
\<close>

theorem parseAddress_ipv6_host_keeps_bracket:
  "parseAddress ''[2001:db8::1]:443'' = (''2001:db8::1]'', ''443'')"
  by (simp add: parseAddress_def slice_def)

text \<open>
  In the bracket branch both slice expressions stay inside the string: the last colon is
  neither at the front nor past the end.
\<close>

lemma parseAddress_slices_in_bounds:
  assumes "\<not> length (Split addr (CHR '':'')) < 2"
    and "HasPrefix (hd (Split addr (CHR '':''))) ''[''"
  shows "1 \<le> LastIndex addr (CHR '':'') \<and> LastIndex addr (CHR '':'') < int (length addr)"
proof -
  have "CHR ''['' \<noteq> CHR '':''" by simp
  with assms(2) have "\<exists>rest. addr = CHR ''['' # rest" by (rule hd_Split_bracket)
  then obtain rest where addr: "addr = CHR ''['' # rest" ..
  have colon: "CHR '':'' \<in> set addr"
  proof (rule ccontr)
    assume "CHR '':'' \<notin> set addr"
    then have "Split addr (CHR '':'') = [addr]" by (rule Split_no_sep)
    with assms(1) show False by simp
  qed
  have "CHR '':'' \<in> set rest"
    using colon unfolding addr by simp
  then have found: "0 \<le> LastIndex rest (CHR '':'')" by (rule LastIndex_found)
  have "LastIndex addr (CHR '':'') = LastIndex rest (CHR '':'') + 1"
    unfolding addr using found by (simp add: Let_def)
  with found have "1 \<le> LastIndex addr (CHR '':'')" by simp
  then show ?thesis using LastIndex_below [of addr "CHR '':''"] by simp
qed

text \<open>A plain \<open>host:port\<close> pair is split at its colon.\<close>

lemma parseAddress_plain:
  assumes "CHR '':'' \<notin> set host" and "CHR '':'' \<notin> set port" and "\<not> HasPrefix host ''[''"
  shows "parseAddress (host @ CHR '':'' # port) = (host, port)"
  using assms by (simp add: parseAddress_def Split_at_sep Split_no_sep)

lemma parseAddress_no_colon: "CHR '':'' \<notin> set addr \<Longrightarrow> parseAddress addr = ([], [])"
  by (simp add: parseAddress_def Split_no_sep)

section \<open>The policy filter: results\<close>

lemma filterLoop_append:
  "filterLoop oc ec ports (xs @ ys) = filterLoop oc ec ports xs @ filterLoop oc ec ports ys"
  by (induction xs) (auto simp: Let_def)

lemma excluded_keys_stay:
  "countryRules i toks (oc, ec, sc) = (oc', ec', sc') \<Longrightarrow> map_of ec c \<noteq> None \<Longrightarrow>
     map_of ec' c \<noteq> None"
proof (induction toks arbitrary: i oc ec sc)
  case Nil
  then show ?case by simp
next
  case (Cons tok toks)
  show ?case
  proof (cases "HasPrefix (TrimSpace tok) ''!''")
    case True
    with Cons.prems show ?thesis
      by (auto simp: Let_def dest: Cons.IH)
  next
    case notOnly: False
    show ?thesis
    proof (cases "HasPrefix (TrimSpace tok) ''-''")
      case True
      have "map_of (AList.update (drop 1 (TrimSpace tok)) i ec) c \<noteq> None"
        using Cons.prems(2) by (simp add: update_conv')
      with True notOnly Cons.prems(1) show ?thesis
        by (auto simp: Let_def dest: Cons.IH)
    next
      case False
      with notOnly Cons.prems show ?thesis
        by (auto simp: Let_def dest: Cons.IH)
    qed
  qed
qed

lemma excluded_token_recorded:
  "countryRules i toks (oc, ec, sc) = (oc', ec', sc') \<Longrightarrow>
     CHR ''-'' # c \<in> TrimSpace ` set toks \<Longrightarrow> map_of ec' c \<noteq> None"
proof (induction toks arbitrary: i oc ec sc)
  case Nil
  then show ?case by simp
next
  case (Cons tok toks)
  show ?case
  proof (cases "TrimSpace tok = CHR ''-'' # c")
    case True
    then have step: "countryRules i (tok # toks) (oc, ec, sc)
        = countryRules (Suc i) toks (oc, AList.update c i ec, sc)"
      by simp
    have key: "map_of (AList.update c i ec) c \<noteq> None"
      by (simp add: update_conv')
    from Cons.prems(1)
    have "countryRules (Suc i) toks (oc, AList.update c i ec, sc) = (oc', ec', sc')"
      unfolding step .
    then show ?thesis using key by (rule excluded_keys_stay)
  next
    case False
    with Cons.prems(2) have later: "CHR ''-'' # c \<in> TrimSpace ` set toks" by auto
    define nxt where "nxt =
        (if HasPrefix (TrimSpace tok) ''!''
         then (AList.update (drop 1 (TrimSpace tok)) i oc, ec, sc)
         else if HasPrefix (TrimSpace tok) ''-''
         then (oc, AList.update (drop 1 (TrimSpace tok)) i ec, sc)
         else (oc, ec, AList.update (TrimSpace tok) i sc))"
    obtain oc1 ec1 sc1 where nxt: "nxt = (oc1, ec1, sc1)"
      by (cases nxt)
    have step: "countryRules i (tok # toks) (oc, ec, sc)
        = countryRules (Suc i) toks (oc1, ec1, sc1)"
      by (simp add: Let_def flip: nxt_def nxt)
    from Cons.prems(1) have "countryRules (Suc i) toks (oc1, ec1, sc1) = (oc', ec', sc')"
      unfolding step .
    then show ?thesis using later by (rule Cons.IH)
  qed
qed

lemma excluded_country_recorded:
  assumes "CHR ''-'' # c \<in> TrimSpace ` set (Split rule (CHR '',''))"
    and "countryMaps rule = (oc, ec, sc)"
  shows "map_of ec c \<noteq> None"
proof -
  from assms(1) have "rule \<noteq> []" by auto
  with assms(2) have "countryRules 0 (Split rule (CHR '','')) ([], [], []) = (oc, ec, sc)"
    by (simp add: countryMaps_def)
  then show ?thesis using assms(1) by (rule excluded_token_recorded)
qed

lemma filterLoop_skips_excluded:
  "map_of ec (Country r) \<noteq> None \<Longrightarrow>
     filterLoop oc ec ports (before @ r # after) = filterLoop oc ec ports (before @ after)"
  by (simp add: filterLoop_append)

text \<open>
  C9. A candidate whose country stands in the country rule both behind \<open>!\<close> and behind
  \<open>-\<close> is dropped: the result is what it would be without the candidate. Its country
  passes the exclusive-only test, and the exclusion test that follows drops it; the first
  hypothesis is not needed for that.
\<close>

theorem exclusive_and_excluded_is_dropped:
  assumes "CHR ''!'' # Country r \<in> TrimSpace ` set (Split rule (CHR '',''))"
    and "CHR ''-'' # Country r \<in> TrimSpace ` set (Split rule (CHR '',''))"
  shows "filterAndSortRelays sort_Slice (before @ r # after) rule ports
           = filterAndSortRelays sort_Slice (before @ after) rule ports"
proof -
  obtain oc ec sc where maps: "countryMaps rule = (oc, ec, sc)"
    by (cases "countryMaps rule")
  with assms(2) have "map_of ec (Country r) \<noteq> None"
    by (rule excluded_country_recorded)
  then show ?thesis
    by (simp add: filterAndSortRelays_def maps filterLoop_skips_excluded)
qed

theorem exclusive_and_excluded_is_dropped_witness:
  "filterAndSortRelays insertionSort
     [exRelay ''A'' ''DE'' ''10.0.0.1:443'' [], exRelay ''B'' ''US'' ''10.0.0.2:443'' [],
      exRelay ''C'' ''US'' ''10.0.0.3:443'' []] ''!US, -US '' []
   = filterAndSortRelays insertionSort
     [exRelay ''A'' ''DE'' ''10.0.0.1:443'' [], exRelay ''C'' ''US'' ''10.0.0.3:443'' []]
     ''!US, -US '' []
   \<and> filterAndSortRelays insertionSort
     [exRelay ''A'' ''DE'' ''10.0.0.1:443'' [], exRelay ''B'' ''US'' ''10.0.0.2:443'' [],
      exRelay ''C'' ''US'' ''10.0.0.3:443'' []] ''!US, -US '' [] = []"
proof -
  have toks: "TrimSpace ` set (Split ''!US, -US '' (CHR '','')) = {''!US'', ''-US''}"
    by (simp add: TrimSpace_examples)
  have c: "Country (exRelay ''B'' ''US'' ''10.0.0.2:443'' []) = ''US''"
    by (simp add: exRelay_def)
  have only: "CHR ''!'' # Country (exRelay ''B'' ''US'' ''10.0.0.2:443'' [])
      \<in> TrimSpace ` set (Split ''!US, -US '' (CHR '',''))"
    unfolding toks c by simp
  have excl: "CHR ''-'' # Country (exRelay ''B'' ''US'' ''10.0.0.2:443'' [])
      \<in> TrimSpace ` set (Split ''!US, -US '' (CHR '',''))"
    unfolding toks c by simp
  have maps: "countryMaps ''!US, -US '' = ([(''US'', 0)], [(''US'', 1)], [])"
    by (simp add: countryMaps_def TrimSpace_examples)
  have "filterAndSortRelays insertionSort
     [exRelay ''A'' ''DE'' ''10.0.0.1:443'' [], exRelay ''B'' ''US'' ''10.0.0.2:443'' [],
      exRelay ''C'' ''US'' ''10.0.0.3:443'' []] ''!US, -US '' [] = []"
    by (simp add: filterAndSortRelays_def maps exRelay_def)
  moreover have "filterAndSortRelays insertionSort
     [exRelay ''A'' ''DE'' ''10.0.0.1:443'' [], exRelay ''B'' ''US'' ''10.0.0.2:443'' [],
      exRelay ''C'' ''US'' ''10.0.0.3:443'' []] ''!US, -US '' []
   = filterAndSortRelays insertionSort
     [exRelay ''A'' ''DE'' ''10.0.0.1:443'' [], exRelay ''C'' ''US'' ''10.0.0.3:443'' []]
     ''!US, -US '' []"
    using exclusive_and_excluded_is_dropped [OF only excl,
        of insertionSort "[exRelay ''A'' ''DE'' ''10.0.0.1:443'' []]"
           "[exRelay ''C'' ''US'' ''10.0.0.3:443'' []]" "[]"]
    by simp
  ultimately show ?thesis by (intro conjI)
qed

lemma portListed_iff: "portListed ports portStr \<longleftrightarrow> portStr \<in> set ports"
  by (induction ports) auto

lemma narrowAddrs_no_colon:
  "[] \<notin> set ports \<Longrightarrow> \<forall>addr \<in> set addrs. CHR '':'' \<notin> set addr \<Longrightarrow>
     narrowAddrs ports addrs = []"
  by (induction addrs) (simp_all add: parseAddress_no_colon portListed_iff)

text \<open>
  C10, as amended. An address without a colon parses to the pair of empty strings. So when
  the port filter is not empty and none of its entries is the empty string, such an address
  matches no port, and a candidate all of whose addresses lack a colon is dropped: the
  result is what it would be without the candidate.
\<close>

theorem colonless_candidate_is_dropped:
  assumes "ports \<noteq> []" and "[] \<notin> set ports"
    and "\<forall>addr \<in> set (OrAddresses r). CHR '':'' \<notin> set addr"
  shows "(\<forall>addr. CHR '':'' \<notin> set addr \<longrightarrow>
            parseAddress addr = ([], []) \<and> \<not> portListed ports (snd (parseAddress addr)))
       \<and> filterAndSortRelays sort_Slice (before @ r # after) rule ports
           = filterAndSortRelays sort_Slice (before @ after) rule ports"
proof -
  have none: "narrowAddrs ports (OrAddresses r) = []"
    using assms(2,3) by (rule narrowAddrs_no_colon)
  obtain oc ec sc where maps: "countryMaps rule = (oc, ec, sc)"
    by (cases "countryMaps rule")
  have "filterLoop oc ec ports (r # after) = filterLoop oc ec ports after"
    using assms(1) none by simp
  then have "filterLoop oc ec ports (before @ r # after) = filterLoop oc ec ports (before @ after)"
    by (simp add: filterLoop_append)
  then show ?thesis
    using assms(2) by (simp add: filterAndSortRelays_def maps parseAddress_no_colon portListed_iff)
qed

theorem colonless_candidate_is_dropped_witness:
  "filterAndSortRelays insertionSort
     [exRelay ''A'' ''DE'' ''10.0.0.1:443'' [], exRelay ''B'' ''US'' ''localhost'' []] [] [''443'']
   = filterAndSortRelays insertionSort [exRelay ''A'' ''DE'' ''10.0.0.1:443'' []] [] [''443'']
   \<and> parseAddress ''localhost'' = ([], [])"
proof -
  have ne: "[''443''] \<noteq> []" by simp
  have noblank: "[] \<notin> set [''443'']" by simp
  have colonless: "\<forall>addr \<in> set (OrAddresses (exRelay ''B'' ''US'' ''localhost'' [])).
      CHR '':'' \<notin> set addr"
    by (simp add: exRelay_def)
  have free: "CHR '':'' \<notin> set ''localhost''" by simp
  from colonless_candidate_is_dropped [OF ne noblank colonless,
      of insertionSort "[exRelay ''A'' ''DE'' ''10.0.0.1:443'' []]" "[]" "[]"] free
  show ?thesis by simp
qed

text \<open>
  C10 as stated, for every non-empty port filter, fails when the filter has an empty entry,
  as the flag \<open>-p 443,\<close> gives: the empty port of \<open>localhost\<close> is listed, and the candidate
  stays.
\<close>

theorem colonless_candidate_kept_counterexample:
  "Split ''443,'' (CHR '','') = [''443'', []]
   \<and> parseAddress ''localhost'' = ([], [])
   \<and> portListed (Split ''443,'' (CHR '','')) (snd (parseAddress ''localhost''))
   \<and> filterAndSortRelays insertionSort [exRelay ''B'' ''US'' ''localhost'' []] []
       (Split ''443,'' (CHR '','')) = [exRelay ''B'' ''US'' ''localhost'' []]"
  by (simp add: filterAndSortRelays_def countryMaps_def parseAddress_def exRelay_def)

subsection \<open>Sorting by country\<close>

lemma mset_sinkLeft: "mset (sinkLeft lt x ys) = add_mset x (mset ys)"
  by (induction ys) simp_all

lemma mset_sink_all:
  "mset (foldl (\<lambda>front x. sinkLeft lt x front) front xs) = mset front + mset xs"
  by (induction xs arbitrary: front) (simp_all add: mset_sinkLeft)

lemma mset_insertionSort: "mset (insertionSort lt xs) = mset xs"
  by (simp add: insertionSort_def mset_sink_all)

lemma set_sinkLeft: "set (sinkLeft lt x ys) = insert x (set ys)"
  using mset_sinkLeft [of lt x ys] by (metis set_mset_add_mset_insert set_mset_mset)

lemma descending_sinkLeft:
  fixes key :: "'a \<Rightarrow> nat"
  assumes "sorted_wrt (\<lambda>a b. key b \<le> key a) ys"
  shows "sorted_wrt (\<lambda>a b. key b \<le> key a) (sinkLeft (\<lambda>a b. key a < key b) x ys)"
  using assms by (induction ys) (auto simp: set_sinkLeft)

lemma descending_sink_all:
  fixes key :: "'a \<Rightarrow> nat"
  assumes "sorted_wrt (\<lambda>a b. key b \<le> key a) front"
  shows "sorted_wrt (\<lambda>a b. key b \<le> key a)
           (foldl (\<lambda>front x. sinkLeft (\<lambda>a b. key a < key b) x front) front xs)"
  using assms by (induction xs arbitrary: front) (simp_all add: descending_sinkLeft)

lemma insertionSort_orders:
  fixes key :: "'a \<Rightarrow> nat"
  shows "sorted_wrt (\<lambda>a b. \<not> key b < key a) (insertionSort (\<lambda>a b. key a < key b) xs)"
proof -
  have "sorted_wrt (\<lambda>a b. key b \<le> key a)
          (foldl (\<lambda>front x. sinkLeft (\<lambda>a b. key a < key b) x front) [] xs)"
    by (rule descending_sink_all) simp
  then show ?thesis
    by (simp add: insertionSort_def sorted_wrt_rev not_less)
qed

lemma lessCountry_key: "lessCountry sc = (\<lambda>a b. countryRank sc a < countryRank sc b)"
  by (intro ext) (simp add: lessCountry_def)

lemma insertionSort_contract: "sortContract insertionSort (lessCountry sc)"
  unfolding sortContract_def lessCountry_key
  by (intro allI conjI mset_insertionSort insertionSort_orders)

text \<open>
  C4, as amended. When the rule has a bare token, and whatever routine meeting the
  contract of \<open>sort.Slice\<close> does the sorting, the result is a rearrangement of the survivors
  in ascending order of rank, where the rank of a country absent from the map is 1000: a
  survivor whose country has a rank below 1000 comes before every survivor whose country is
  absent. Nothing is said about the order of survivors of equal rank.
\<close>

theorem sorted_by_rank:
  assumes "countryMaps rule = (onlyCountries, excludeCountries, sortedCountries)"
    and "sortedCountries \<noteq> []"
    and "sortContract sort_Slice (lessCountry sortedCountries)"
  shows "mset (filterAndSortRelays sort_Slice relays rule ports)
           = mset (filterLoop onlyCountries excludeCountries ports relays)
       \<and> sorted (map (countryRank sortedCountries) (filterAndSortRelays sort_Slice relays rule ports))
       \<and> (\<forall>i j k. i < length (filterAndSortRelays sort_Slice relays rule ports)
             \<and> j < length (filterAndSortRelays sort_Slice relays rule ports)
             \<and> map_of sortedCountries (Country (filterAndSortRelays sort_Slice relays rule ports ! i)) = Some k
             \<and> k < 1000
             \<and> map_of sortedCountries (Country (filterAndSortRelays sort_Slice relays rule ports ! j)) = None
             \<longrightarrow> i < j)"
proof -
  let ?filtered = "filterLoop onlyCountries excludeCountries ports relays"
  let ?out = "filterAndSortRelays sort_Slice relays rule ports"
  have out: "?out = sort_Slice (lessCountry sortedCountries) ?filtered"
    using assms(1,2) by (simp add: filterAndSortRelays_def)
  from assms(3) have perm: "mset ?out = mset ?filtered"
    and ord: "sorted_wrt (\<lambda>a b. \<not> lessCountry sortedCountries b a) ?out"
    unfolding out sortContract_def by simp_all
  from ord have ranks: "sorted (map (countryRank sortedCountries) ?out)"
    by (simp add: sorted_map lessCountry_def not_less sorted_wrt_map)
  have "i < j" if "i < length ?out" "j < length ?out"
      "map_of sortedCountries (Country (?out ! i)) = Some k" "k < 1000"
      "map_of sortedCountries (Country (?out ! j)) = None" for i j k
  proof (rule ccontr)
    assume "\<not> i < j"
    then have "j \<le> i" by simp
    with ranks that(1) have "countryRank sortedCountries (?out ! j) \<le> countryRank sortedCountries (?out ! i)"
      by (simp add: sorted_iff_nth_mono that(2))
    with that(3,4,5) show False by (simp add: countryRank_def)
  qed
  with perm ranks show ?thesis by blast
qed

theorem sorted_by_rank_witness:
  "filterAndSortRelays insertionSort
     [exRelay ''A'' ''ZZ'' ''10.0.0.1:443'' [], exRelay ''B'' ''DE'' ''10.0.0.2:443'' [],
      exRelay ''C'' ''US'' ''10.0.0.3:443'' []] ''US, DE'' []
   = [exRelay ''C'' ''US'' ''10.0.0.3:443'' [], exRelay ''B'' ''DE'' ''10.0.0.2:443'' [],
      exRelay ''A'' ''ZZ'' ''10.0.0.1:443'' []]
   \<and> mset (filterAndSortRelays insertionSort
        [exRelay ''A'' ''ZZ'' ''10.0.0.1:443'' [], exRelay ''B'' ''DE'' ''10.0.0.2:443'' [],
         exRelay ''C'' ''US'' ''10.0.0.3:443'' []] ''US, DE'' [])
     = mset [exRelay ''A'' ''ZZ'' ''10.0.0.1:443'' [], exRelay ''B'' ''DE'' ''10.0.0.2:443'' [],
         exRelay ''C'' ''US'' ''10.0.0.3:443'' []]
   \<and> sorted (map (countryRank [(''US'', 0), (''DE'', 1)])
       (filterAndSortRelays insertionSort
        [exRelay ''A'' ''ZZ'' ''10.0.0.1:443'' [], exRelay ''B'' ''DE'' ''10.0.0.2:443'' [],
         exRelay ''C'' ''US'' ''10.0.0.3:443'' []] ''US, DE'' []))"
proof -
  let ?rs = "[exRelay ''A'' ''ZZ'' ''10.0.0.1:443'' [], exRelay ''B'' ''DE'' ''10.0.0.2:443'' [],
      exRelay ''C'' ''US'' ''10.0.0.3:443'' []]"
  have maps: "countryMaps ''US, DE'' = ([], [], [(''US'', 0), (''DE'', 1)])"
    by (simp add: countryMaps_def TrimSpace_examples)
  have ne: "[(''US'', 0::nat), (''DE'', 1)] \<noteq> []" by simp
  have survivors: "filterLoop [] [] [] ?rs = ?rs" by simp
  note inst = sorted_by_rank [OF maps ne insertionSort_contract, of ?rs "[]"]
  have "filterAndSortRelays insertionSort ?rs ''US, DE'' []
      = [exRelay ''C'' ''US'' ''10.0.0.3:443'' [], exRelay ''B'' ''DE'' ''10.0.0.2:443'' [],
         exRelay ''A'' ''ZZ'' ''10.0.0.1:443'' []]"
    by (simp add: filterAndSortRelays_def maps insertionSort_def lessCountry_def countryRank_def
        exRelay_def)
  moreover from inst have "mset (filterAndSortRelays insertionSort ?rs ''US, DE'' []) = mset ?rs"
    unfolding survivors by (rule conjunct1)
  moreover from inst have "sorted (map (countryRank [(''US'', 0), (''DE'', 1)])
       (filterAndSortRelays insertionSort ?rs ''US, DE'' []))"
    by (elim conjE)
  ultimately show ?thesis by (intro conjI)
qed

lemma countryRules_blank_tokens:
  "countryRules i (replicate n [] @ toks) (oc, ec, sc)
     = countryRules (i + n) toks (oc, ec, if n = 0 then sc else AList.update [] (i + n - 1) sc)"
proof (induction n arbitrary: i sc)
  case 0
  show ?case by simp
next
  case (Suc n)
  show ?case by (simp add: Suc.IH)
qed

lemma countryMaps_long_rule:
  "countryMaps (replicate 1001 (CHR '','') @ ''US'') = ([], [], [([], 1000), (''US'', 1001)])"
  using countryRules_blank_tokens [of 0 1001 "[''US'']" "[]" "[]" "[]"]
  by (simp add: countryMaps_def Split_leading_seps TrimSpace_examples)

text \<open>
  C4 as stated fails: in a rule of 1002 tokens whose last is \<open>US\<close>, the rank of \<open>US\<close> is
  1001, and a candidate of the absent country \<open>ZZ\<close>, with rank 1000, is placed before the
  ranked one. (Any routine that sorts gives this order; the two elements are sorted by
  \<open>insertionSort\<close> in every release.)
\<close>

theorem ranked_after_unranked_counterexample:
  "map_of (snd (snd (countryMaps (replicate 1001 (CHR '','') @ ''US'')))) ''US'' = Some 1001
   \<and> map_of (snd (snd (countryMaps (replicate 1001 (CHR '','') @ ''US'')))) ''ZZ'' = None
   \<and> filterAndSortRelays insertionSort
       [exRelay ''A'' ''US'' ''10.0.0.1:443'' [], exRelay ''B'' ''ZZ'' ''10.0.0.2:443'' []]
       (replicate 1001 (CHR '','') @ ''US'') []
     = [exRelay ''B'' ''ZZ'' ''10.0.0.2:443'' [], exRelay ''A'' ''US'' ''10.0.0.1:443'' []]"
  by (simp add: filterAndSortRelays_def countryMaps_long_rule insertionSort_def lessCountry_def
      countryRank_def exRelay_def)

text \<open>
  Nor is the order of equal ranks kept by every release: with the pass that precedes the
  insertion sort, seven survivors of which only the last has a ranked country come out with
  the first of the unranked ones behind the others.
\<close>

lemma equal_ranks_reordered:
  "filterAndSortRelays shellInsertionSort
     [exRelay ''A'' ''AA'' ''10.0.0.1:443'' [], exRelay ''B'' ''BB'' ''10.0.0.2:443'' [],
      exRelay ''C'' ''CC'' ''10.0.0.3:443'' [], exRelay ''D'' ''DD'' ''10.0.0.4:443'' [],
      exRelay ''E'' ''EE'' ''10.0.0.5:443'' [], exRelay ''F'' ''FF'' ''10.0.0.6:443'' [],
      exRelay ''G'' ''US'' ''10.0.0.7:443'' []] ''US'' []
   = [exRelay ''G'' ''US'' ''10.0.0.7:443'' [], exRelay ''B'' ''BB'' ''10.0.0.2:443'' [],
      exRelay ''C'' ''CC'' ''10.0.0.3:443'' [], exRelay ''D'' ''DD'' ''10.0.0.4:443'' [],
      exRelay ''E'' ''EE'' ''10.0.0.5:443'' [], exRelay ''F'' ''FF'' ''10.0.0.6:443'' [],
      exRelay ''A'' ''AA'' ''10.0.0.1:443'' []]"
proof -
  have maps: "countryMaps ''US'' = ([], [], [(''US'', 0)])"
    by (simp add: countryMaps_def TrimSpace_examples)
  have upt: "[6 ..< 7] = [6::nat]" by (simp add: upt_rec)
  show ?thesis
    by (simp add: filterAndSortRelays_def maps shellInsertionSort_def upt insertionSort_def
        lessCountry_def countryRank_def exRelay_def)
qed

section \<open>The output formatter: results\<close>

lemma relayLines_map:
  "relayLines prefix fp addrs = map (\<lambda>addr. prefix @ addr @ '' '' @ fp @ [CHR 0x0A]) addrs"
  by (induction addrs) simp_all

lemma outputLines_pairs:
  "outputLines prefix rs
     = map (\<lambda>(addr, fp). prefix @ addr @ '' '' @ fp @ [CHR 0x0A]) (acceptedPairs rs)"
  by (induction rs) (simp_all add: acceptedPairs_def relayLines_map comp_def)

text \<open>
  C8. In torrc mode the text written is one line \<open>Bridge <address> <fingerprint>\<close> per
  (candidate, address) pair in input order, then the line \<open>UseBridges 1\<close>; for the accepted
  set of one candidate with fingerprint \<open>ABCD\<close> and the single reachable address
  \<open>1.2.3.4:443\<close> it is exactly \<open>Bridge 1.2.3.4:443 ABCD\nUseBridges 1\n\<close>.
\<close>

theorem generateOutput_torrc:
  "fst (generateOutput rs True prefsjs pf)
     = concat (map (\<lambda>(addr, fp). ''Bridge '' @ addr @ '' '' @ fp @ ''\<newline>'') (acceptedPairs rs))
       @ ''UseBridges 1\<newline>''
   \<and> fst (generateOutput
            [\<lparr>Fingerprint = ''ABCD'', OrAddresses = addrs, Country = c,
              Reachable = [''1.2.3.4:443'']\<rparr>]
            True [] pf)
     = ''Bridge 1.2.3.4:443 ABCD\<newline>UseBridges 1\<newline>''"
proof
  show "fst (generateOutput rs True prefsjs pf)
     = concat (map (\<lambda>(addr, fp). ''Bridge '' @ addr @ '' '' @ fp @ ''\<newline>'') (acceptedPairs rs))
       @ ''UseBridges 1\<newline>''"
    by (cases pf) (simp_all add: generateOutput_def Let_def outputLines_pairs)
  show "fst (generateOutput
            [\<lparr>Fingerprint = ''ABCD'', OrAddresses = addrs, Country = c,
              Reachable = [''1.2.3.4:443'']\<rparr>]
            True [] pf)
     = ''Bridge 1.2.3.4:443 ABCD\<newline>UseBridges 1\<newline>''"
    by (simp add: generateOutput_def)
qed

text \<open>
  C5. The claim is that the lines added to the preferences file carry a running index over
  the (candidate, address) pairs, distinct for every pair. The index written is the one of
  the outer loop, over the candidates: an accepted candidate with two reachable addresses
  gets two lines under the same key \<open>bridge_strings.0\<close>. The preferences file is empty
  before the call.
\<close>

theorem generateOutput_prefs_index_repeats:
  \<open>generateOutput
     [\<lparr>Fingerprint = ''ABCD'', OrAddresses = addrs, Country = c,
       Reachable = [''1.2.3.4:443'', ''1.2.3.4:9001'']\<rparr>]
     False ''prefs.js'' (Present [] True)
   = (''1.2.3.4:443 ABCD\<newline>1.2.3.4:9001 ABCD\<newline>'',
      Present (''\<newline>user_pref("torbrowser.settings.bridges.bridge_strings.0", "1.2.3.4:443 ABCD");\<newline>user_pref("torbrowser.settings.bridges.bridge_strings.0", "1.2.3.4:9001 ABCD");\<newline>user_pref("torbrowser.settings.bridges.enabled", true);\<newline>user_pref("torbrowser.settings.bridges.source", 2);'') True,
      None)\<close>
  by (simp add: generateOutput_def prefLine_def itoa.simps)

section \<open>The prober and the scheduler: results\<close>

text \<open>
  C1. The claim is that a candidate with a successful dial has the address in its
  \<open>reachableAddresses\<close> after the barrier and belongs to the accepted set. With one
  candidate whose only address answers, the address is appended to the loop variable
  (first component of the probe's result) while the chunk's own element stays as it was, so
  nothing is accepted and the run ends with the report that no relay is reachable.
\<close>

theorem successful_dial_not_accepted:
  "probeChunk (\<lambda>addr. True)
     [\<lparr>Fingerprint = ''ABCD'', OrAddresses = [''1.2.3.4:443''], Country = c, Reachable = []\<rparr>]
   = Inr ([\<lparr>Fingerprint = ''ABCD'', OrAddresses = [''1.2.3.4:443''], Country = c,
            Reachable = [''1.2.3.4:443'']\<rparr>], [])
   \<and> run sort_Slice (\<lambda>addr. True)
       \<lparr>flag_n = 30, flag_g = 5, flag_c = [], flag_p = [], flag_torrc = False, flag_browser = []\<rparr>
       [\<lparr>Fingerprint = ''ABCD'', OrAddresses = [''1.2.3.4:443''], Country = c, Reachable = []\<rparr>]
       True pf
   = (Returned [] pf (Some ''No reachable relays found.''), [''1.2.3.4:443''])"
  by (simp add: probeChunk_def run_def filterAndSortRelays_def countryMaps_def slice_def
      batchLoop.simps)

text \<open>
  The same holds for every directory that comes without \<open>Reachable\<close> entries, whatever the
  network answers: the loop accepts nothing.
\<close>

lemma slice_subset: "set (slice xs lo hi) \<subseteq> set xs"
  unfolding slice_def by (meson set_take_subset set_drop_subset subset_trans)

lemma probeChunk_nothing_recorded:
  assumes "\<forall>r \<in> set chunk. Reachable r = []"
  shows "probeChunk dial chunk = Inl Deadlock
       \<or> probeChunk dial chunk = Inr (drain (launch dial 0 chunk) chunk, [])"
proof -
  from assms have "filter (\<lambda>r. Reachable r \<noteq> []) chunk = []"
    by (induction chunk) simp_all
  then show ?thesis by (simp add: probeChunk_def Let_def)
qed

lemma batchLoop_ignores_dials:
  "\<forall>r \<in> set relays. Reachable r = [] \<Longrightarrow>
     fst (snd (batchLoop dial relays numRelays goal i workingRelays dialed)) = workingRelays"
proof (induction dial relays numRelays goal i workingRelays dialed rule: batchLoop.induct)
  case (1 dial relays numRelays goal i workingRelays dialed)
  let ?chunk = "slice relays i (min (i + nat numRelays) (length relays))"
  let ?dialed = "dialed @ concat (map OrAddresses ?chunk)"
  show ?case
  proof (cases "i < length relays \<and> int (length workingRelays) < goal \<and> 0 < numRelays")
    case False
    then show ?thesis
      by (subst batchLoop.simps) auto
  next
    case True
    have "\<forall>r \<in> set ?chunk. Reachable r = []"
      using "1.prems" slice_subset [of relays i] by blast
    then consider "probeChunk dial ?chunk = Inl Deadlock"
      | "probeChunk dial ?chunk = Inr (drain (launch dial 0 ?chunk) ?chunk, [])"
      using probeChunk_nothing_recorded by blast
    then show ?thesis
    proof cases
      case 1
      with True show ?thesis
        by (subst batchLoop.simps) (simp add: Let_def)
    next
      case 2
      have "fst (snd (batchLoop dial relays numRelays goal (i + nat numRelays)
                 (workingRelays @ []) ?dialed)) = workingRelays @ []"
        using True 2 "1.prems"
        by (intro "1.IH"[where b = "(drain (launch dial 0 ?chunk) ?chunk, [])"]) simp_all
      with True 2 show ?thesis
        by (subst batchLoop.simps) (simp add: Let_def)
    qed
  qed
qed

text \<open>
  The loop does not always return normally: a batch size that is not positive panics in the
  first pass, and a batch with more successful dials than the channel holds never passes
  the barrier.
\<close>

lemma batchLoop_nonpositive_batch:
  assumes "relays \<noteq> []" and "0 < goal" and "numRelays \<le> 0"
  shows "batchLoop dial relays numRelays goal 0 [] []
           = (Some (if numRelays < 0 then SliceBounds else DivideByZero), [], [])"
  using assms by (subst batchLoop.simps) simp

lemma probeChunk_channel_full:
  "probeChunk (\<lambda>addr. True)
     [\<lparr>Fingerprint = ''ABCD'',
       OrAddresses = [''10.0.0.1:1'', ''10.0.0.1:2'', ''10.0.0.1:3'', ''10.0.0.1:4'',
         ''10.0.0.1:5'', ''10.0.0.1:6'', ''10.0.0.1:7'', ''10.0.0.1:8'', ''10.0.0.1:9'',
         ''10.0.0.1:10'', ''10.0.0.1:11''],
       Country = c, Reachable = []\<rparr>]
   = Inl Deadlock"
  by (simp add: probeChunk_def)

text \<open>A batch of relays with at most ten addresses each fits the results channel.\<close>

lemma launch_fits:
  "\<forall>r \<in> set chunk. length (OrAddresses r) \<le> 10 \<Longrightarrow>
     length (launch dial k chunk) \<le> length chunk * 10"
proof (induction chunk arbitrary: k)
  case Nil
  then show ?case by simp
next
  case (Cons r chunk)
  have "length (filter dial (OrAddresses r)) \<le> length (OrAddresses r)"
    by (rule length_filter_le)
  also have "\<dots> \<le> 10" using Cons.prems by simp
  finally have "length (filter dial (OrAddresses r)) \<le> 10" .
  moreover have "length (launch dial (Suc k) chunk) \<le> length chunk * 10"
    using Cons.prems by (intro Cons.IH) simp
  ultimately show ?case by simp
qed

lemma slice_chunk:
  "i < length xs \<Longrightarrow> slice xs i (min (i + n) (length xs)) = take n (drop i xs)"
  by (simp add: slice_def min_def)

lemma batches_Nil [simp]: "batches n [] = []"
  by (subst batches.simps) simp

lemma batches_step:
  "0 < n \<Longrightarrow> i < length xs \<Longrightarrow>
     batches n (drop i xs) = take n (drop i xs) # batches n (drop (i + n) xs)"
  by (subst batches.simps) (simp add: add.commute)

lemma probeChunk_fits:
  "length (launch dial 0 chunk) \<le> length chunk * 10 \<Longrightarrow>
     probeChunk dial chunk = Inr (drain (launch dial 0 chunk) chunk, accepted chunk)"
  by (simp add: probeChunk_def accepted_def)

lemma batchLoop_schedule:
  assumes "0 < numRelays"
  shows "\<forall>b \<in> set (batches (nat numRelays) (drop i relays)). length (launch dial 0 b) \<le> length b * 10 \<Longrightarrow>
     batchLoop dial relays numRelays goal i workingRelays dialed =
       (case schedule goal (batches (nat numRelays) (drop i relays)) workingRelays of
          (final, processed) \<Rightarrow> (None, final, dialed @ concat (map OrAddresses (concat processed))))"
  using assms
proof (induction dial relays numRelays goal i workingRelays dialed rule: batchLoop.induct)
  case (1 dial relays numRelays goal i workingRelays dialed)
  note pos = \<open>0 < numRelays\<close>
  show ?case
  proof (cases "i < length relays")
    case False
    then show ?thesis
      by (subst batchLoop.simps) simp
  next
    case inside: True
    let ?n = "nat numRelays"
    let ?chunk = "take ?n (drop i relays)"
    from pos have n: "0 < ?n" by simp
    have step: "batches ?n (drop i relays) = ?chunk # batches ?n (drop (i + ?n) relays)"
      using n inside by (rule batches_step)
    show ?thesis
    proof (cases "int (length workingRelays) < goal")
      case False
      with inside show ?thesis
        by (subst batchLoop.simps) (simp add: step)
    next
      case short: True
      let ?dialed = "dialed @ concat (map OrAddresses ?chunk)"
      have chunk: "slice relays i (min (i + ?n) (length relays)) = ?chunk"
        using inside by (rule slice_chunk)
      have fits: "length (launch dial 0 ?chunk) \<le> length ?chunk * 10"
        using "1.prems"(1) by (simp add: step)
      have rest: "\<forall>b \<in> set (batches ?n (drop (i + ?n) relays)).
          length (launch dial 0 b) \<le> length b * 10"
        using "1.prems"(1) by (simp add: step)
      have probed: "probeChunk dial ?chunk
          = Inr (drain (launch dial 0 ?chunk) ?chunk, accepted ?chunk)"
        using fits by (rule probeChunk_fits)
      have ih: "batchLoop dial relays numRelays goal (i + ?n) (workingRelays @ accepted ?chunk) ?dialed =
          (case schedule goal (batches ?n (drop (i + ?n) relays)) (workingRelays @ accepted ?chunk) of
             (final, processed) \<Rightarrow>
               (None, final, ?dialed @ concat (map OrAddresses (concat processed))))"
        using inside short pos chunk probed rest
        by (intro "1.IH"[where b = "(drain (launch dial 0 ?chunk) ?chunk, accepted ?chunk)"]) simp_all
      have unfold: "batchLoop dial relays numRelays goal i workingRelays dialed =
          batchLoop dial relays numRelays goal (i + ?n) (workingRelays @ accepted ?chunk) ?dialed"
        using inside short pos
        by (subst batchLoop.simps) (simp add: chunk probed Let_def)
      show ?thesis
        using short by (simp add: unfold ih step split: prod.splits)
    qed
  qed
qed

lemma schedule_stops:
  "schedule goal bs acc = (final, processed) \<Longrightarrow>
     \<exists>k \<le> length bs.
        processed = take k bs
      \<and> final = acc @ concat (map accepted (take k bs))
      \<and> (k = length bs \<or> goal \<le> int (length final))
      \<and> (\<forall>j < k. int (length (acc @ concat (map accepted (take j bs)))) < goal)"
proof (induction bs arbitrary: acc final processed)
  case Nil
  then show ?case by simp
next
  case (Cons b bs)
  show ?case
  proof (cases "goal \<le> int (length acc)")
    case True
    with Cons.prems have "final = acc" "processed = []" by simp_all
    with True show ?thesis by (intro exI[of _ 0]) simp
  next
    case False
    obtain f p where rec: "schedule goal bs (acc @ accepted b) = (f, p)"
      by (cases "schedule goal bs (acc @ accepted b)")
    with False Cons.prems have fin: "final = f" and pr: "processed = b # p" by simp_all
    from Cons.IH [OF rec] obtain k where k: "k \<le> length bs" "p = take k bs"
      "f = (acc @ accepted b) @ concat (map accepted (take k bs))"
      "k = length bs \<or> goal \<le> int (length f)"
      "\<forall>j < k. int (length ((acc @ accepted b) @ concat (map accepted (take j bs)))) < goal"
      by blast
    have "\<forall>j < Suc k. int (length (acc @ concat (map accepted (take j (b # bs))))) < goal"
    proof (intro allI impI)
      fix j assume "j < Suc k"
      then show "int (length (acc @ concat (map accepted (take j (b # bs))))) < goal"
        using False k(5) by (cases j) auto
    qed
    with k fin pr show ?thesis
      by (intro exI[of _ "Suc k"]) auto
  qed
qed

text \<open>
  The control of the loop, in terms of what the list itself records as reachable. For a
  positive batch size, and as long as no batch has more successful dials than the results
  channel holds, the loop returns normally after exactly \<open>k\<close> batches, taken in order from
  the front of the partition: it has dialed their addresses and no others, its
  \<open>workingRelays\<close> are the candidates of these \<open>k\<close> batches whose \<open>Reachable\<close> is not
  empty in the list, \<open>k\<close> is a batch boundary at which their number has reached \<open>goal\<close> or
  no batch remains, and at no earlier boundary had it reached \<open>goal\<close>. The answers of the
  network do not enter.
\<close>

lemma batchLoop_control:
  assumes "0 < numRelays"
    and "\<forall>b \<in> set (batches (nat numRelays) relays). length (launch dial 0 b) \<le> length b * 10"
  shows "\<exists>k \<le> length (batches (nat numRelays) relays).
      batchLoop dial relays numRelays goal 0 [] []
        = (None, concat (map accepted (take k (batches (nat numRelays) relays))),
           concat (map OrAddresses (concat (take k (batches (nat numRelays) relays)))))
    \<and> (k = length (batches (nat numRelays) relays)
        \<or> goal \<le> int (length (concat (map accepted (take k (batches (nat numRelays) relays))))))
    \<and> (\<forall>j < k. int (length (concat (map accepted (take j (batches (nat numRelays) relays))))) < goal)"
proof -
  let ?bs = "batches (nat numRelays) relays"
  obtain final processed where sch: "schedule goal ?bs [] = (final, processed)"
    by (cases "schedule goal ?bs []")
  have "batchLoop dial relays numRelays goal 0 [] []
      = (None, final, concat (map OrAddresses (concat processed)))"
    using batchLoop_schedule [OF assms(1), of 0 relays dial goal "[]" "[]"] assms(2) sch
    by simp
  moreover from schedule_stops [OF sch] obtain k where "k \<le> length ?bs" "processed = take k ?bs"
      "final = concat (map accepted (take k ?bs))"
      "k = length ?bs \<or> goal \<le> int (length final)"
      "\<forall>j < k. int (length (concat (map accepted (take j ?bs)))) < goal"
    by auto
  ultimately show ?thesis
    by (intro exI[of _ k]) simp
qed


text \<open>
  With a directory that arrives with addresses already recorded as reachable, so that its
  four batches hold 0, 2, 2 and 2 such candidates, and \<open>goal = 3\<close>, the loop stops after the
  third batch with 4 candidates, and the fourth batch is never dialed.
\<close>

lemma batchLoop_control_preloaded:
  "batchLoop exDial exDirectory 2 3 0 [] []
     = (None,
        [exRelay ''C'' ''US'' ''10.0.0.3:443'' [''10.0.0.3:443''],
         exRelay ''D'' ''US'' ''10.0.0.4:443'' [''10.0.0.4:443''],
         exRelay ''E'' ''US'' ''10.0.0.5:443'' [''10.0.0.5:443''],
         exRelay ''F'' ''US'' ''10.0.0.6:443'' [''10.0.0.6:443'']],
        [''10.0.0.1:443'', ''10.0.0.2:443'', ''10.0.0.3:443'', ''10.0.0.4:443'',
         ''10.0.0.5:443'', ''10.0.0.6:443''])
   \<and> length (batches 2 exDirectory) = 4"
proof -
  let ?bs = "[[exRelay ''A'' ''US'' ''10.0.0.1:443'' [], exRelay ''B'' ''US'' ''10.0.0.2:443'' []],
         [exRelay ''C'' ''US'' ''10.0.0.3:443'' [''10.0.0.3:443''],
          exRelay ''D'' ''US'' ''10.0.0.4:443'' [''10.0.0.4:443'']],
         [exRelay ''E'' ''US'' ''10.0.0.5:443'' [''10.0.0.5:443''],
          exRelay ''F'' ''US'' ''10.0.0.6:443'' [''10.0.0.6:443'']],
         [exRelay ''G'' ''US'' ''10.0.0.7:443'' [''10.0.0.7:443''],
          exRelay ''H'' ''US'' ''10.0.0.8:443'' [''10.0.0.8:443'']]]"
  have bs: "batches 2 exDirectory
      = [[exRelay ''A'' ''US'' ''10.0.0.1:443'' [], exRelay ''B'' ''US'' ''10.0.0.2:443'' []],
         [exRelay ''C'' ''US'' ''10.0.0.3:443'' [''10.0.0.3:443''],
          exRelay ''D'' ''US'' ''10.0.0.4:443'' [''10.0.0.4:443'']],
         [exRelay ''E'' ''US'' ''10.0.0.5:443'' [''10.0.0.5:443''],
          exRelay ''F'' ''US'' ''10.0.0.6:443'' [''10.0.0.6:443'']],
         [exRelay ''G'' ''US'' ''10.0.0.7:443'' [''10.0.0.7:443''],
          exRelay ''H'' ''US'' ''10.0.0.8:443'' [''10.0.0.8:443'']]]"
    by (simp add: batches.simps exDirectory_def)
  have two: "nat 2 = 2" by simp
  have fits: "\<forall>b \<in> set (batches (nat 2) exDirectory). length (launch exDial 0 b) \<le> length b * 10"
    unfolding two bs by (simp add: exRelay_def)
  have pos: "0 < (2::int)" by simp
  have "\<exists>k \<le> length ?bs.
      batchLoop exDial exDirectory 2 3 0 [] []
        = (None, concat (map accepted (take k ?bs)),
           concat (map OrAddresses (concat (take k ?bs))))
    \<and> (k = length ?bs \<or> 3 \<le> int (length (concat (map accepted (take k ?bs)))))
    \<and> (\<forall>j < k. int (length (concat (map accepted (take j ?bs)))) < 3)"
    using batchLoop_control [OF pos fits, of 3] unfolding two bs .
  then obtain k where len: "k \<le> length ?bs"
    and run: "batchLoop exDial exDirectory 2 3 0 [] []
        = (None, concat (map accepted (take k ?bs)),
           concat (map OrAddresses (concat (take k ?bs))))"
    and stop: "k = length ?bs \<or> 3 \<le> int (length (concat (map accepted (take k ?bs))))"
    and before: "\<forall>j < k. int (length (concat (map accepted (take j ?bs)))) < 3"
    by blast
  from len have k: "k \<le> 4" by simp
  from k consider "k = 0" | "k = 1" | "k = 2" | "k = 3" | "k = 4" by linarith
  then have "k = 3"
  proof cases
    case 1
    with stop show ?thesis by simp
  next
    case 2
    with stop show ?thesis by (simp add: exRelay_def accepted_def)
  next
    case 3
    with stop show ?thesis by (simp add: exRelay_def accepted_def)
  next
    case 4
    then show ?thesis .
  next
    case 5
    have "(3::nat) < k" using 5 by simp
    with before have "int (length (concat (map accepted (take 3 ?bs)))) < 3"
      by blast
    then show ?thesis by (simp add: exRelay_def accepted_def)
  qed
  with run show ?thesis
    by (simp add: bs) (simp add: exRelay_def accepted_def)
qed

text \<open>
  C2. The claim is that the scheduler stops at the first batch boundary where the accepted
  set has reached the target count, so that with a target count of 3 and batches yielding
  0, 2 and 2 accepted candidates the run stops after the third batch with 4 accepted
  candidates. With batches of two, a target count of 3 and a network in which the dials of
  the four batches succeed 0, 2, 2 and 2 times, the loop does check its condition at every
  batch boundary, but no successful dial ever reaches \<open>workingRelays\<close>: it runs all four
  batches, dials every address, accepts nothing, and the run ends with the report that no
  relay is reachable.
\<close>

theorem scheduler_never_reaches_target:
  "map (\<lambda>b. length (launch exDial 0 b)) (batches 2 liveDirectory) = [0, 2, 2, 2]
   \<and> batchLoop exDial liveDirectory 2 3 0 [] []
     = (None, [],
        [''10.0.0.1:443'', ''10.0.0.2:443'', ''10.0.0.3:443'', ''10.0.0.4:443'',
         ''10.0.0.5:443'', ''10.0.0.6:443'', ''10.0.0.7:443'', ''10.0.0.8:443''])
   \<and> run sort_Slice exDial
       \<lparr>flag_n = 2, flag_g = 3, flag_c = [], flag_p = [], flag_torrc = False, flag_browser = []\<rparr>
       liveDirectory True pf
     = (Returned [] pf (Some ''No reachable relays found.''),
        [''10.0.0.1:443'', ''10.0.0.2:443'', ''10.0.0.3:443'', ''10.0.0.4:443'',
         ''10.0.0.5:443'', ''10.0.0.6:443'', ''10.0.0.7:443'', ''10.0.0.8:443''])"
proof -
  have dials: "map (\<lambda>b. length (launch exDial 0 b)) (batches 2 liveDirectory) = [0, 2, 2, 2]"
    by (simp add: batches.simps liveDirectory_def exRelay_def exDial_def)
  have loop: "batchLoop exDial liveDirectory 2 3 0 [] []
     = (None, [],
        [''10.0.0.1:443'', ''10.0.0.2:443'', ''10.0.0.3:443'', ''10.0.0.4:443'',
         ''10.0.0.5:443'', ''10.0.0.6:443'', ''10.0.0.7:443'', ''10.0.0.8:443''])"
    by (simp add: batchLoop.simps probeChunk_def slice_def liveDirectory_def exRelay_def
        exDial_def)
  have filtered: "filterAndSortRelays sort_Slice liveDirectory [] [] = liveDirectory"
    by (simp add: filterAndSortRelays_def countryMaps_def liveDirectory_def)
  have some: "length liveDirectory \<noteq> 0"
    by (simp add: liveDirectory_def)
  have "run sort_Slice exDial
       \<lparr>flag_n = 2, flag_g = 3, flag_c = [], flag_p = [], flag_torrc = False, flag_browser = []\<rparr>
       liveDirectory True pf
     = (Returned [] pf (Some ''No reachable relays found.''),
        [''10.0.0.1:443'', ''10.0.0.2:443'', ''10.0.0.3:443'', ''10.0.0.4:443'',
         ''10.0.0.5:443'', ''10.0.0.6:443'', ''10.0.0.7:443'', ''10.0.0.8:443''])"
    using some by (simp add: run_def filtered loop)
  with dials loop show ?thesis by (intro conjI)
qed

section \<open>The run: results\<close>

text \<open>
  C6. When no candidate is left after filtering, the run ends in the fatal error
  \<open>No relays match the specified criteria\<close>, an outcome of its own kind, with nothing
  dialed; in particular it does not return.
\<close>

theorem no_candidates_is_fatal:
  assumes "filterAndSortRelays sort_Slice loaded (flag_c fl)
             (if flag_p fl \<noteq> [] then Split (flag_p fl) (CHR '','') else []) = []"
  shows "run sort_Slice dial fl loaded sinkOpens pf = (NoRelaysMatch, [])"
  using assms by (simp add: run_def)

theorem no_candidates_is_fatal_witness:
  "run insertionSort (\<lambda>addr. True)
     \<lparr>flag_n = 30, flag_g = 5, flag_c = ''-US'', flag_p = ''443'', flag_torrc = False,
      flag_browser = []\<rparr>
     [exRelay ''A'' ''US'' ''10.0.0.1:443'' []] True Missing
   = (NoRelaysMatch, [])"
proof (rule no_candidates_is_fatal)
  have "countryMaps ''-US'' = ([], [(''US'', 0)], [])"
    by (simp add: countryMaps_def TrimSpace_def spaceRunes_def trimFront.simps)
  then show "filterAndSortRelays insertionSort [exRelay ''A'' ''US'' ''10.0.0.1:443'' []]
      (flag_c \<lparr>flag_n = 30, flag_g = 5, flag_c = ''-US'', flag_p = ''443'', flag_torrc = False,
         flag_browser = []\<rparr>)
      (if flag_p \<lparr>flag_n = 30, flag_g = 5, flag_c = ''-US'', flag_p = ''443'', flag_torrc = False,
         flag_browser = []\<rparr> \<noteq> []
       then Split (flag_p \<lparr>flag_n = 30, flag_g = 5, flag_c = ''-US'', flag_p = ''443'',
         flag_torrc = False, flag_browser = []\<rparr>) (CHR '','') else []) = []"
    by (simp add: filterAndSortRelays_def exRelay_def)
qed

text \<open>
  C7. When the loop ends normally with nothing accepted, \<open>main\<close> returns: nothing is
  written, the preferences file is left alone, and the log says
  \<open>No reachable relays found.\<close>
\<close>

theorem none_reachable_is_success:
  assumes "filterAndSortRelays sort_Slice loaded (flag_c fl)
             (if flag_p fl \<noteq> [] then Split (flag_p fl) (CHR '','') else []) = relays"
    and "relays \<noteq> []"
    and "sinkOpens"
    and "batchLoop dial relays (flag_n fl) (flag_g fl) 0 [] [] = (None, [], dialed)"
  shows "run sort_Slice dial fl loaded sinkOpens pf
           = (Returned [] pf (Some ''No reachable relays found.''), dialed)"
  using assms by (simp add: run_def)

theorem none_reachable_is_success_witness:
  "run insertionSort (\<lambda>addr. False)
     \<lparr>flag_n = 30, flag_g = 5, flag_c = [], flag_p = [], flag_torrc = True,
      flag_browser = ''prefs.js''\<rparr>
     [exRelay ''A'' ''US'' ''10.0.0.1:443'' [], exRelay ''B'' ''US'' ''10.0.0.2:443'' []] True Missing
   = (Returned [] Missing (Some ''No reachable relays found.''),
      [''10.0.0.1:443'', ''10.0.0.2:443''])"
proof (rule none_reachable_is_success)
  let ?fl = "\<lparr>flag_n = 30, flag_g = 5, flag_c = [], flag_p = [], flag_torrc = True,
      flag_browser = ''prefs.js''\<rparr>"
  let ?rs = "[exRelay ''A'' ''US'' ''10.0.0.1:443'' [], exRelay ''B'' ''US'' ''10.0.0.2:443'' []]"
  show "filterAndSortRelays insertionSort ?rs (flag_c ?fl)
         (if flag_p ?fl \<noteq> [] then Split (flag_p ?fl) (CHR '','') else []) = ?rs"
    by (simp add: filterAndSortRelays_def countryMaps_def)
  show "?rs \<noteq> []" by simp
  show True by simp
  show "batchLoop (\<lambda>addr. False) ?rs (flag_n ?fl) (flag_g ?fl) 0 [] []
      = (None, [], [''10.0.0.1:443'', ''10.0.0.2:443''])"
    by (simp add: batchLoop.simps probeChunk_def slice_def exRelay_def)
qed

end
